theory Spec2Isabelle
  imports Main "HOL-Library.Sublist" "HOL-Library.AList"
begin

section \<open>Python strings\<close>

text \<open>
  A Python \<open>str\<close> is modelled by its UTF-8 encoding, a list of bytes (\<open>string\<close>).
  Every needle, delimiter and separator the program looks for is ASCII, and an ASCII byte
  never occurs inside a multi-byte UTF-8 sequence, so searching the bytes agrees with
  searching the code points. Paths are the POSIX strings that \<open>str(Path)\<close> yields.
\<close>

type_synonym path = string

text \<open>\<open>needle in haystack\<close> for strings: the needle occurs as a contiguous run.\<close>

fun str_in :: "string \<Rightarrow> string \<Rightarrow> bool" where
  "str_in needle [] = (needle = [])"
| "str_in needle (c # cs) = (prefix needle (c # cs) \<or> str_in needle cs)"

subsection \<open>\<open>Path(p).name\<close> and \<open>Path(p).stem\<close>\<close>

fun split_slash :: "string \<Rightarrow> string list" where
  "split_slash [] = [[]]"
| "split_slash (c # cs) =
     (if c = CHR ''/'' then [] # split_slash cs
      else (case split_slash cs of
              [] \<Rightarrow> [[c]]
            | part # parts \<Rightarrow> (c # part) # parts))"

text \<open>
  \<open>PurePosixPath\<close> drops empty components and \<open>.\<close> components when it parses a
  string; \<open>name\<close> is the last component left, or the empty string.
\<close>

definition path_name :: "path \<Rightarrow> string" where
  "path_name p =
     (let parts = filter (\<lambda>s. s \<noteq> [] \<and> s \<noteq> ''.'') (split_slash p)
      in if parts = [] then [] else last parts)"

text \<open>\<open>str.rfind\<close> for a single character; \<open>None\<close> stands for \<open>-1\<close>.\<close>

fun rfind :: "char \<Rightarrow> string \<Rightarrow> nat option" where
  "rfind c [] = None"
| "rfind c (x # xs) =
     (case rfind c xs of
        Some i \<Rightarrow> Some (Suc i)
      | None \<Rightarrow> if x = c then Some 0 else None)"

text \<open>
  \<open>stem\<close> as pathlib computes it: with \<open>i = name.rfind('.')\<close>, the result is
  \<open>name[:i]\<close> when \<open>0 < i < len(name) - 1\<close> and \<open>name\<close> otherwise.
\<close>

definition path_stem :: "path \<Rightarrow> string" where
  "path_stem p =
     (let name = path_name p
      in case rfind (CHR ''.'') name of
           None \<Rightarrow> name
         | Some i \<Rightarrow> if 0 < i \<and> Suc i < length name then take i name else name)"

subsection \<open>The description pattern\<close>

text \<open>
  The pattern is \<open>description\s*=\s*["']([^"']+)["']\<close>. For a \<open>str\<close> pattern
  \<open>\s\<close> is Unicode white space; these are the UTF-8 encodings of the code points
  Python counts as white space: the ASCII ones, U+0085, U+00A0, U+1680, U+2000 to
  U+200A, U+2028, U+2029, U+202F, U+205F and U+3000.
\<close>

definition space_tokens :: "string list" where
  "space_tokens =
     [[CHR 0x09], [CHR 0x0A], [CHR 0x0B], [CHR 0x0C], [CHR 0x0D],
      [CHR 0x1C], [CHR 0x1D], [CHR 0x1E], [CHR 0x1F], [CHR 0x20],
      [CHR 0xC2, CHR 0x85], [CHR 0xC2, CHR 0xA0],
      [CHR 0xE1, CHR 0x9A, CHR 0x80],
      [CHR 0xE2, CHR 0x80, CHR 0x80], [CHR 0xE2, CHR 0x80, CHR 0x81],
      [CHR 0xE2, CHR 0x80, CHR 0x82], [CHR 0xE2, CHR 0x80, CHR 0x83],
      [CHR 0xE2, CHR 0x80, CHR 0x84], [CHR 0xE2, CHR 0x80, CHR 0x85],
      [CHR 0xE2, CHR 0x80, CHR 0x86], [CHR 0xE2, CHR 0x80, CHR 0x87],
      [CHR 0xE2, CHR 0x80, CHR 0x88], [CHR 0xE2, CHR 0x80, CHR 0x89],
      [CHR 0xE2, CHR 0x80, CHR 0x8A],
      [CHR 0xE2, CHR 0x80, CHR 0xA8], [CHR 0xE2, CHR 0x80, CHR 0xA9],
      [CHR 0xE2, CHR 0x80, CHR 0xAF], [CHR 0xE2, CHR 0x81, CHR 0x9F],
      [CHR 0xE3, CHR 0x80, CHR 0x80]]"

text \<open>Remove the first token of the list that the string starts with.\<close>

fun strip_token :: "string list \<Rightarrow> string \<Rightarrow> string option" where
  "strip_token [] s = None"
| "strip_token (t # ts) s =
     (if t \<noteq> [] \<and> prefix t s then Some (drop (length t) s) else strip_token ts s)"

text \<open>\<open>\s*\<close> is greedy: it consumes white space as long as there is some.\<close>

function skip_spaces :: "string \<Rightarrow> string" where
  "skip_spaces s =
     (case strip_token space_tokens s of
        None \<Rightarrow> s
      | Some r \<Rightarrow> skip_spaces r)"
  by pat_completeness auto
termination
proof (relation "measure length")
  show "wf (measure length)" by simp
next
  fix s r :: string
  assume "strip_token space_tokens s = Some r"
  moreover have "strip_token ts s = Some r \<Longrightarrow> length r < length s" for ts
    by (induction ts) (auto split: if_splits simp: prefix_def)
  ultimately show "(r, s) \<in> measure length" by simp
qed

declare skip_spaces.simps [simp del]

definition is_quote :: "char \<Rightarrow> bool" where
  "is_quote c = (c = CHR 0x22 \<or> c = CHR 0x27)"

text \<open>
  The pattern anchored at the start of \<open>s\<close>; the result is group 1. No step has more
  than one way to succeed: \<open>=\<close> is not white space, and the greedy group stops at the
  first quote character, which must be there.
\<close>

definition match_description :: "string \<Rightarrow> string option" where
  "match_description s =
     (if \<not> prefix ''description'' s then None
      else (case skip_spaces (drop 11 s) of
              [] \<Rightarrow> None
            | e # s2 \<Rightarrow>
                if e \<noteq> CHR ''='' then None
                else (case skip_spaces s2 of
                        [] \<Rightarrow> None
                      | q # s4 \<Rightarrow>
                          if \<not> is_quote q then None
                          else (let x = takeWhile (\<lambda>c. \<not> is_quote c) s4;
                                    r = dropWhile (\<lambda>c. \<not> is_quote c) s4
                                in if x = [] \<or> r = [] then None else Some x))))"

text \<open>\<open>re.search\<close>: the match at the leftmost position that has one.\<close>

fun search_description :: "string \<Rightarrow> string option" where
  "search_description [] = None"
| "search_description (c # cs) =
     (case match_description (c # cs) of
        Some x \<Rightarrow> Some x
      | None \<Rightarrow> search_description cs)"

section \<open>The template renderer\<close>

definition description_of :: "path \<Rightarrow> string \<Rightarrow> string" where
  "description_of original_file_path original_content =
     (case search_description original_content of
        Some x \<Rightarrow> x
      | None \<Rightarrow> ''Modern DSL version of '' @ path_stem original_file_path)"

text \<open>The category and complexity, from the \<open>if\<close>/\<open>elif\<close> chain on the path.\<close>

definition classify :: "path \<Rightarrow> string \<times> string" where
  "classify original_file_path =
     (if str_in ''beginner'' original_file_path then (''beginner'', ''simple'')
      else if str_in ''intermediate'' original_file_path then (''intermediate'', ''moderate'')
      else if str_in ''advanced'' original_file_path then (''advanced'', ''complex'')
      else (''general'', ''basic''))"

text \<open>
  The f-string, piece by piece and in the order of the source, cut into its sections;
  \<open>{{\<close> and \<open>}}\<close> of the source are single braces.
\<close>

definition template_header :: "string \<Rightarrow> string \<Rightarrow> string \<Rightarrow> string" where
  \<open>template_header description category complexity = concat [
     ''-- MODERN DSL ONLY - '', description, ''\<newline>'',
     ''-- Converted from legacy TaskDefinition format\<newline>'',
     ''-- Category: '', category, '', Complexity: '', complexity, ''\<newline>'',
     ''\<newline>''
   ]\<close>

definition template_task :: "string \<Rightarrow> string \<Rightarrow> string" where
  \<open>template_task description file_name = concat [
     ''-- Main task using Modern DSL\<newline>'',
     ''local main_task = task("'', file_name, ''_task")\<newline>'',
     ''    :description("'', description, ''")\<newline>''
   ]\<close>

definition template_command :: "string \<Rightarrow> string" where
  \<open>template_command file_name = concat [
     ''    :command(function(params, deps)\<newline>'',
     ''        log.info("'', [CHR 0xF0, CHR 0x9F, CHR 0x9A, CHR 0x80], '' Executing '', file_name, '' with Modern DSL...")\<newline>'',
     ''        \<newline>'',
     ''        -- TODO: Replace with actual implementation from original file\<newline>'',
     ''        -- Original logic should be migrated here\<newline>'',
     ''        \<newline>'',
     ''        return true, "Task completed successfully", {\<newline>'',
     ''            task_name = "'', file_name, ''",\<newline>'',
     ''            execution_time = os.time(),\<newline>'',
     ''            status = "success"\<newline>'',
     ''        }\<newline>'',
     ''    end)\<newline>'',
     ''    :timeout("5m")\<newline>'',
     ''    :retries(2, "exponential")\<newline>'',
     ''    :on_success(function(params, output)\<newline>'',
     ''        log.info("'', [CHR 0xE2, CHR 0x9C, CHR 0x85], '' '', file_name, '' task completed successfully")\<newline>'',
     ''    end)\<newline>'',
     ''    :on_failure(function(params, error)\<newline>'',
     ''        log.error("'', [CHR 0xE2, CHR 0x9D, CHR 0x8C], '' '', file_name, '' task failed: " .. error)\<newline>'',
     ''    end)\<newline>'',
     ''    :build()\<newline>'',
     ''\<newline>''
   ]\<close>

definition template_additional :: "string \<Rightarrow> string" where
  \<open>template_additional file_name = concat [
     ''-- Additional tasks can be added here following the same pattern\<newline>'',
     ''-- local secondary_task = task("'', file_name, ''_secondary")\<newline>'',
     ''--     :description("Secondary task for '', file_name, ''")\<newline>'',
     ''--     :depends_on({"'', file_name, ''_task"})\<newline>'',
     ''--     :command(function(params, deps)\<newline>'',
     ''--         -- Secondary logic here\<newline>'',
     ''--         return true, "Secondary task completed", {}\<newline>'',
     ''--     end)\<newline>'',
     ''--     :build()\<newline>'',
     ''\<newline>''
   ]\<close>

definition template_workflow :: "string \<Rightarrow> string \<Rightarrow> string \<Rightarrow> string \<Rightarrow> string" where
  \<open>template_workflow description file_name category complexity = concat [
     ''-- Modern Workflow Definition\<newline>'',
     ''workflow.define("'', file_name, ''_workflow", {\<newline>'',
     ''    description = "'', description, '' - Modern DSL",\<newline>'',
     ''    version = "2.0.0",\<newline>'',
     ''    \<newline>'',
     ''    metadata = {\<newline>'',
     ''        author = "Sloth Runner Team",\<newline>'',
     ''        category = "'', category, ''",\<newline>'',
     ''        complexity = "'', complexity, ''",\<newline>'',
     ''        tags = {"'', file_name, ''", "modern-dsl", "'', category, ''"},\<newline>'',
     ''        created_at = os.date(),\<newline>'',
     ''        migrated_from = "TaskDefinition format"\<newline>'',
     ''    },\<newline>'',
     ''    \<newline>'',
     ''    tasks = {\<newline>'',
     ''        main_task\<newline>'',
     ''        -- Add additional tasks here\<newline>'',
     ''    },\<newline>'',
     ''    \<newline>'',
     ''    config = {\<newline>'',
     ''        timeout = "15m",\<newline>'',
     ''        retry_policy = "exponential",\<newline>'',
     ''        max_parallel_tasks = 2,\<newline>'',
     ''        cleanup_on_failure = true\<newline>'',
     ''    },\<newline>'',
     ''    \<newline>'',
     ''    on_start = function()\<newline>'',
     ''        log.info("'', [CHR 0xF0, CHR 0x9F, CHR 0x9A, CHR 0x80], '' Starting '', file_name, '' workflow...")\<newline>'',
     ''        return true\<newline>'',
     ''    end,\<newline>'',
     ''    \<newline>'',
     ''    on_complete = function(success, results)\<newline>'',
     ''        if success then\<newline>'',
     ''            log.info("'', [CHR 0xE2, CHR 0x9C, CHR 0x85], '' '', file_name, '' workflow completed successfully!")\<newline>'',
     ''        else\<newline>'',
     ''            log.error("'', [CHR 0xE2, CHR 0x9D, CHR 0x8C], '' '', file_name, '' workflow failed!")\<newline>'',
     ''        end\<newline>'',
     ''        return true\<newline>'',
     ''    end\<newline>'',
     ''})\<newline>'',
     ''\<newline>''
   ]\<close>

definition template_note :: "string \<Rightarrow> string" where
  \<open>template_note backup_name = concat [
     ''-- Migration Note:\<newline>'',
     ''-- This file has been converted from legacy TaskDefinition format to Modern DSL\<newline>'',
     ''-- TODO: Review and implement the original logic in the Modern DSL structure above\<newline>'',
     ''-- Original backup saved as '', backup_name, ''.backup\<newline>''
   ]\<close>

definition render :: "string \<Rightarrow> string \<Rightarrow> string \<Rightarrow> string \<Rightarrow> string \<Rightarrow> string" where
  "render description file_name category complexity backup_name =
     template_header description category complexity
     @ template_task description file_name
     @ template_command file_name
     @ template_additional file_name
     @ template_workflow description file_name category complexity
     @ template_note backup_name"

definition create_modern_dsl_template :: "path \<Rightarrow> string \<Rightarrow> string" where
  "create_modern_dsl_template original_file_path original_content =
     (let file_name = path_stem original_file_path;
          description = description_of original_file_path original_content;
          (category, complexity) = classify original_file_path
      in render description file_name category complexity (path_name original_file_path))"

section \<open>The file system, the console and the failures of the environment\<close>

text \<open>
  The file system is an association list from paths to file contents (the bytes), in the
  order a directory walk meets them. Opening, copying and writing can fail for reasons
  outside the program (permissions, a full disk, bytes that are not UTF-8); \<open>env\<close>
  says, per path, which calls raise. A call that raises while writing may leave bytes
  behind: \<open>Raises None\<close> leaves the destination as it was, \<open>Raises (Some b)\<close> leaves
  \<open>b\<close> there.
\<close>

datatype error = ReadError | BackupError | WriteError

datatype outcome = Succeeds | Raises "string option"

record env =
  scan_read_fails :: "path \<Rightarrow> bool"
  conv_read_fails :: "path \<Rightarrow> bool"
  copy_outcome :: "path \<Rightarrow> outcome"
  write_outcome :: "path \<Rightarrow> outcome"

text \<open>The lines the program prints, and the file-system calls that can write.\<close>

datatype message =
    Starting
  | ErrorReading path
  | Found nat
  | NoFilesNeedConversion
  | AlreadyModern path
  | Converted path
  | ErrorConverting path error
  | Summary nat nat nat

datatype fs_op = OpCopy path path | OpWrite path

record world =
  files :: "(path \<times> string) list"
  console :: "message list"
  ops :: "fs_op list"

definition print :: "message \<Rightarrow> world \<Rightarrow> world" where
  "print m w = w\<lparr>console := console w @ [m]\<rparr>"

text \<open>
  Reading in text mode translates \<open>\r\n\<close> and a lone \<open>\r\<close> to \<open>\n\<close>. Writing
  in text mode on POSIX writes the string as it is.
\<close>

fun universal_newlines :: "string \<Rightarrow> string" where
  "universal_newlines [] = []"
| "universal_newlines [c] = (if c = CHR 0x0D then [CHR 0x0A] else [c])"
| "universal_newlines (c # d # cs) =
     (if c = CHR 0x0D then
        (if d = CHR 0x0A then CHR 0x0A # universal_newlines cs
         else CHR 0x0A # universal_newlines (d # cs))
      else c # universal_newlines (d # cs))"

text \<open>\<open>open(p, 'r', encoding='utf-8')\<close> and \<open>f.read()\<close>.\<close>

definition read_text :: "(path \<Rightarrow> bool) \<Rightarrow> world \<Rightarrow> path \<Rightarrow> error + string" where
  "read_text fails w p =
     (if fails p then Inl ReadError
      else (case map_of (files w) p of
              None \<Rightarrow> Inl ReadError
            | Some b \<Rightarrow> Inr (universal_newlines b)))"

text \<open>\<open>shutil.copy2(src, dst)\<close>: the source is opened first, then the destination.\<close>

definition copy2 :: "env \<Rightarrow> path \<Rightarrow> path \<Rightarrow> world \<Rightarrow> (error + unit) \<times> world" where
  "copy2 env src dst w =
     (case map_of (files w) src of
        None \<Rightarrow> (Inl BackupError, w)
      | Some b \<Rightarrow>
          (let w' = w\<lparr>ops := ops w @ [OpCopy src dst]\<rparr>
           in case copy_outcome env src of
                Succeeds \<Rightarrow> (Inr (), w'\<lparr>files := AList.update dst b (files w')\<rparr>)
              | Raises None \<Rightarrow> (Inl BackupError, w')
              | Raises (Some left) \<Rightarrow>
                  (Inl BackupError, w'\<lparr>files := AList.update dst left (files w')\<rparr>)))"

text \<open>\<open>open(p, 'w', encoding='utf-8')\<close> and \<open>f.write(content)\<close>.\<close>

definition write_text :: "env \<Rightarrow> path \<Rightarrow> string \<Rightarrow> world \<Rightarrow> (error + unit) \<times> world" where
  "write_text env p content w =
     (let w' = w\<lparr>ops := ops w @ [OpWrite p]\<rparr>
      in case write_outcome env p of
           Succeeds \<Rightarrow> (Inr (), w'\<lparr>files := AList.update p content (files w')\<rparr>)
         | Raises None \<Rightarrow> (Inl WriteError, w')
         | Raises (Some left) \<Rightarrow>
             (Inl WriteError, w'\<lparr>files := AList.update p left (files w')\<rparr>))"

section \<open>Converting one file\<close>

text \<open>The two content tests of the source, named.\<close>

definition already_modern :: "string \<Rightarrow> bool" where
  "already_modern original_content =
     (str_in ''task('' original_content \<and> \<not> str_in ''TaskDefinition'' original_content)"

definition is_legacy :: "string \<Rightarrow> bool" where
  "is_legacy content =
     (str_in ''TaskDefinition'' content \<or> str_in ''task_definition'' content)"

text \<open>The body of the \<open>try\<close>: \<open>Inl\<close> is an exception on its way to the handler.\<close>

definition convert_body :: "env \<Rightarrow> path \<Rightarrow> world \<Rightarrow> (error + unit) \<times> world" where
  "convert_body env file_path w =
     (case read_text (conv_read_fails env) w file_path of
        Inl e \<Rightarrow> (Inl e, w)
      | Inr original_content \<Rightarrow>
          if already_modern original_content
          then (Inr (), print (AlreadyModern file_path) w)
          else (let backup_path = file_path @ ''.backup''
                in case copy2 env file_path backup_path w of
                     (Inl e, w1) \<Rightarrow> (Inl e, w1)
                   | (Inr u, w1) \<Rightarrow>
                       (let modern_content =
                              create_modern_dsl_template file_path original_content
                        in case write_text env file_path modern_content w1 of
                             (Inl e, w2) \<Rightarrow> (Inl e, w2)
                           | (Inr u, w2) \<Rightarrow> (Inr (), print (Converted file_path) w2))))"

text \<open>The \<open>except Exception\<close> handler turns every exception into \<open>False\<close>.\<close>

definition convert_file_to_modern_dsl :: "env \<Rightarrow> path \<Rightarrow> world \<Rightarrow> bool \<times> world" where
  "convert_file_to_modern_dsl env file_path w =
     (case convert_body env file_path w of
        (Inr u, w') \<Rightarrow> (True, w')
      | (Inl e, w') \<Rightarrow> (False, print (ErrorConverting file_path e) w'))"

section \<open>The run\<close>

text \<open>
  \<open>Path("examples").rglob("*.lua")\<close>: the paths under \<open>examples\<close> whose last
  component ends in \<open>.lua\<close>.
\<close>

definition rglob_lua :: "(path \<times> string) list \<Rightarrow> path list" where
  "rglob_lua fs =
     filter (\<lambda>p. prefix ''examples/'' p \<and> suffix ''.lua'' p) (map fst fs)"

text \<open>The detection loop; \<open>lua_files\<close> is the list built so far.\<close>

fun scan :: "env \<Rightarrow> path list \<Rightarrow> path list \<Rightarrow> world \<Rightarrow> path list \<times> world" where
  "scan env [] lua_files w = (lua_files, w)"
| "scan env (lua_file # rest) lua_files w =
     (case read_text (scan_read_fails env) w lua_file of
        Inl e \<Rightarrow> scan env rest lua_files (print (ErrorReading lua_file) w)
      | Inr content \<Rightarrow>
          if is_legacy content then scan env rest (lua_files @ [lua_file]) w
          else scan env rest lua_files w)"

text \<open>The conversion loop, with its two counters.\<close>

fun convert_loop :: "env \<Rightarrow> path list \<Rightarrow> world \<times> nat \<times> nat \<Rightarrow> world \<times> nat \<times> nat" where
  "convert_loop env [] s = s"
| "convert_loop env (file_path # rest) (w, converted, failed) =
     (case convert_file_to_modern_dsl env file_path w of
        (True, w') \<Rightarrow> convert_loop env rest (w', converted + 1, failed)
      | (False, w') \<Rightarrow> convert_loop env rest (w', converted, failed + 1))"

definition start :: "(path \<times> string) list \<Rightarrow> world" where
  "start fs = print Starting \<lparr>files = fs, console = [], ops = []\<rparr>"

definition detect :: "env \<Rightarrow> (path \<times> string) list \<Rightarrow> path list \<times> world" where
  "detect env fs = scan env (rglob_lua fs) [] (start fs)"

definition main :: "env \<Rightarrow> (path \<times> string) list \<Rightarrow> world" where
  "main env fs =
     (case detect env fs of
        (lua_files, w1) \<Rightarrow>
          (let w2 = print (Found (length lua_files)) w1
           in if lua_files = [] then print NoFilesNeedConversion w2
              else (case convert_loop env lua_files (w2, 0, 0) of
                      (w3, converted, failed) \<Rightarrow>
                        print (Summary converted failed (length lua_files)) w3)))"

text \<open>An environment in which no call fails.\<close>

definition no_faults :: env where
  "no_faults = \<lparr>scan_read_fails = (\<lambda>p. False), conv_read_fails = (\<lambda>p. False),
                 copy_outcome = (\<lambda>p. Succeeds), write_outcome = (\<lambda>p. Succeeds)\<rparr>"

section \<open>Vocabulary of the statements\<close>

text \<open>A message of the conversion of \<open>p\<close>, and the messages that report a failure.\<close>

definition about :: "path \<Rightarrow> message \<Rightarrow> bool" where
  "about p m = (m = AlreadyModern p \<or> m = Converted p \<or> (\<exists>e. m = ErrorConverting p e))"

fun is_failure :: "message \<Rightarrow> bool" where
  "is_failure (ErrorConverting p e) = True"
| "is_failure m = False"

fun is_success :: "message \<Rightarrow> bool" where
  "is_success (AlreadyModern p) = True"
| "is_success (Converted p) = True"
| "is_success m = False"

fun is_summary :: "message \<Rightarrow> bool" where
  "is_summary (Summary c f n) = True"
| "is_summary m = False"

fun is_warning :: "message \<Rightarrow> bool" where
  "is_warning (ErrorReading p) = True"
| "is_warning m = False"

text \<open>The two calls the conversion of \<open>p\<close> can make on the file system.\<close>

definition touches :: "path \<Rightarrow> fs_op \<Rightarrow> bool" where
  "touches p op = (op = OpCopy p (p @ ''.backup'') \<or> op = OpWrite p)"

text \<open>The files the detection loop keeps: readable, with a legacy marker.\<close>

definition selected :: "env \<Rightarrow> (path \<times> string) list \<Rightarrow> path \<Rightarrow> bool" where
  "selected env fs p =
     (\<not> scan_read_fails env p \<and> (case map_of fs p of None \<Rightarrow> False | Some b \<Rightarrow> is_legacy b))"

text \<open>The list \<open>lua_files\<close> of a run, and the path a file-system call writes to.\<close>

definition candidates :: "env \<Rightarrow> (path \<times> string) list \<Rightarrow> path list" where
  "candidates env fs = fst (detect env fs)"


text \<open>
  The description pattern as a specification, independent of the matcher: a string of white
  space is a concatenation of white-space characters, and the pattern occurs in
  \<open>content\<close> at offset \<open>i\<close> with group \<open>x\<close> when \<open>content\<close> is cut as
  \<open>description\<close>, white space, \<open>=\<close>, white space, a quote character, the
  non-empty and quote-free \<open>x\<close>, a quote character, after \<open>i\<close> bytes.
\<close>

definition white :: "string \<Rightarrow> bool" where
  "white ws = (\<exists>toks. set toks \<subseteq> set space_tokens \<and> ws = concat toks)"

definition description_at :: "string \<Rightarrow> nat \<Rightarrow> string \<Rightarrow> bool" where
  "description_at content i x =
     (\<exists>pre ws1 ws2 q1 q2 post.
        content = pre @ ''description'' @ ws1 @ ''='' @ ws2 @ q1 # x @ q2 # post
      \<and> length pre = i \<and> white ws1 \<and> white ws2 \<and> is_quote q1 \<and> is_quote q2
      \<and> x \<noteq> [] \<and> (\<forall>c\<in>set x. \<not> is_quote c))"

section \<open>Lemmas\<close>

lemma str_in_sublist: "str_in needle haystack = sublist needle haystack"
  by (induction haystack) (simp_all add: sublist_Cons_right)

lemma str_in_iff: "str_in needle haystack \<longleftrightarrow> (\<exists>ps ss. haystack = ps @ needle @ ss)"
  by (simp add: str_in_sublist sublist_def)

lemma header_has_TaskDefinition: "str_in ''TaskDefinition'' (template_header d c x)"
proof -
  have "template_header d c x =
      (''-- MODERN DSL ONLY - '' @ d @ ''\<newline>-- Converted from legacy '')
      @ ''TaskDefinition''
      @ ('' format\<newline>-- Category: '' @ c @ '', Complexity: '' @ x @ ''\<newline>\<newline>'')"
    by (simp add: template_header_def)
  then show ?thesis unfolding str_in_iff by blast
qed

lemma task_has_task_call: "str_in ''task('' (template_task d f)"
proof -
  have "template_task d f =
      ''-- Main task using Modern DSL\<newline>local main_task = ''
      @ ''task(''
      @ ([CHR 0x22] @ f @ ''_task'' @ [CHR 0x22] @ '')\<newline>    :description('' @ [CHR 0x22] @ d @ [CHR 0x22] @ '')\<newline>'')"
    by (simp add: template_task_def)
  then show ?thesis unfolding str_in_iff by blast
qed

lemma str_in_appendI1: "str_in n a \<Longrightarrow> str_in n (a @ b)"
  unfolding str_in_iff by (metis append.assoc)

lemma str_in_appendI2: "str_in n b \<Longrightarrow> str_in n (a @ b)"
  unfolding str_in_iff by (metis append.assoc)

lemma template_has_TaskDefinition:
  "str_in ''TaskDefinition'' (create_modern_dsl_template p c)"
  by (simp add: create_modern_dsl_template_def render_def Let_def split: prod.split)
     (intro allI impI str_in_appendI1 header_has_TaskDefinition)

lemma template_has_task_call:
  "str_in ''task('' (create_modern_dsl_template p c)"
  by (simp add: create_modern_dsl_template_def render_def Let_def split: prod.split)
     (intro allI impI str_in_appendI2 str_in_appendI1 task_has_task_call)

lemma template_not_already_modern: "\<not> already_modern (create_modern_dsl_template p c)"
  by (simp add: already_modern_def template_has_TaskDefinition)

lemma template_is_legacy: "is_legacy (create_modern_dsl_template p c)"
  by (simp add: is_legacy_def template_has_TaskDefinition)

lemma prefix_universal_newlines:
  "CHR 0x0D \<notin> set n \<Longrightarrow> CHR 0x0A \<notin> set n \<Longrightarrow> n \<noteq> [] \<Longrightarrow>
   prefix n (universal_newlines s) = prefix n s"
proof (induction s arbitrary: n rule: universal_newlines.induct)
  case 1 then show ?case by simp
next
  case (2 c) then show ?case by (cases n) auto
next
  case (3 c d cs)
  then show ?case
    by (cases n; cases "tl n = []") (auto simp: neq_Nil_conv)
qed

lemma str_in_universal_newlines:
  "CHR 0x0D \<notin> set n \<Longrightarrow> CHR 0x0A \<notin> set n \<Longrightarrow> n \<noteq> [] \<Longrightarrow>
   str_in n (universal_newlines s) = str_in n s"
proof (induction s rule: universal_newlines.induct)
  case 1 then show ?case by simp
next
  case (2 c) then show ?case by (cases n) auto
next
  case (3 c d cs)
  have p: "prefix n (universal_newlines (c # d # cs)) = prefix n (c # d # cs)"
    using 3 by (intro prefix_universal_newlines)
  show ?case
  proof (cases "c = CHR 0x0D")
    case False
    then show ?thesis using 3 p by simp
  next
    case True
    show ?thesis 
    proof (cases "d = CHR 0x0A")
      case True
      with \<open>c = CHR 0x0D\<close> 3 show ?thesis by (cases n) auto
    next
      case False
      with \<open>c = CHR 0x0D\<close> 3 show ?thesis by (cases n) auto
    qed
  qed
qed

lemma already_modern_universal_newlines [simp]:
  "already_modern (universal_newlines s) = already_modern s"
  by (simp add: already_modern_def str_in_universal_newlines)

lemma is_legacy_universal_newlines [simp]:
  "is_legacy (universal_newlines s) = is_legacy s"
  by (simp add: is_legacy_def str_in_universal_newlines)

lemmas conv_defs = convert_file_to_modern_dsl_def convert_body_def copy2_def write_text_def
  read_text_def print_def Let_def

lemmas conv_splits = option.splits outcome.splits sum.splits if_splits prod.splits

lemma backup_neq [simp]: "p @ ''.backup'' \<noteq> p" "p \<noteq> p @ ''.backup''"
  by (induction p) auto

lemma convert_frame:
  assumes "convert_file_to_modern_dsl env p w = (r, w')" "q \<noteq> p" "q \<noteq> p @ ''.backup''"
  shows "map_of (files w') q = map_of (files w) q"
  using assms by (auto simp: conv_defs update_conv' split: conv_splits)

lemma convert_original_kept:
  assumes "convert_file_to_modern_dsl env p w = (r, w')" "OpWrite p \<notin> set (ops w')"
  shows "map_of (files w') p = map_of (files w) p"
  using assms by (auto simp: conv_defs update_conv' split: conv_splits)

lemma convert_console:
  assumes "convert_file_to_modern_dsl env p w = (r, w')"
  shows "\<exists>m. console w' = console w @ [m] \<and> about p m \<and> (r \<longleftrightarrow> \<not> is_failure m)"
  using assms by (auto simp: conv_defs about_def split: conv_splits)

lemma convert_ops:
  assumes "convert_file_to_modern_dsl env p w = (r, w')"
  shows "ops w' = ops w \<or> ops w' = ops w @ [OpCopy p (p @ ''.backup'')]
       \<or> ops w' = ops w @ [OpCopy p (p @ ''.backup''), OpWrite p]"
  using assms by (auto simp: conv_defs split: conv_splits)


lemma convert_skipped:
  assumes "convert_file_to_modern_dsl env p w = (r, w')" "console w' = console w @ [AlreadyModern p]"
  shows "files w' = files w \<and> ops w' = ops w"
  using assms by (auto simp: conv_defs split: conv_splits)

lemma convert_distinct:
  assumes "convert_file_to_modern_dsl env p w = (r, w')" "distinct (map fst (files w))"
  shows "distinct (map fst (files w'))"
  using assms by (auto simp: conv_defs distinct_update split: conv_splits)

lemma backup_not_lua [simp]: "\<not> suffix ''.lua'' (p @ ''.backup'')"
  by (simp add: suffix_to_prefix)

lemma loop_step:
  obtains r w1 where "convert_file_to_modern_dsl env p w = (r, w1)"
    and "convert_loop env (p # ps) (w, c, f) =
         convert_loop env ps (w1, if r then c + 1 else c, if r then f else f + 1)"
  by (cases "convert_file_to_modern_dsl env p w") auto

lemma loop_frame:
  "convert_loop env ps (w, c, f) = (w', c', f') \<Longrightarrow> q \<notin> set ps \<Longrightarrow>
   (\<forall>p\<in>set ps. q \<noteq> p @ ''.backup'') \<Longrightarrow> map_of (files w') q = map_of (files w) q"
proof (induction ps arbitrary: w c f)
  case Nil
  then show ?case by simp
next
  case (Cons p ps)
  obtain r w1 where s: "convert_file_to_modern_dsl env p w = (r, w1)"
    and l: "convert_loop env (p # ps) (w, c, f) =
         convert_loop env ps (w1, if r then c + 1 else c, if r then f else f + 1)"
    by (rule loop_step)
  from Cons.prems l have "map_of (files w') q = map_of (files w1) q"
    by (intro Cons.IH[of w1 "if r then c + 1 else c" "if r then f else f + 1"]) auto
  moreover have "map_of (files w1) q = map_of (files w) q"
    using s Cons.prems by (intro convert_frame[OF s]) auto
  ultimately show ?case by simp
qed

lemma loop_distinct:
  "convert_loop env ps (w, c, f) = (w', c', f') \<Longrightarrow> distinct (map fst (files w)) \<Longrightarrow>
   distinct (map fst (files w'))"
proof (induction ps arbitrary: w c f)
  case Nil
  then show ?case by simp
next
  case (Cons p ps)
  obtain r w1 where s: "convert_file_to_modern_dsl env p w = (r, w1)"
    and l: "convert_loop env (p # ps) (w, c, f) =
         convert_loop env ps (w1, if r then c + 1 else c, if r then f else f + 1)"
    by (rule loop_step)
  from convert_distinct[OF s] Cons.prems have "distinct (map fst (files w1))" by simp
  with Cons.prems l show ?case
    by (intro Cons.IH[of w1 "if r then c + 1 else c" "if r then f else f + 1"]) auto
qed

lemma loop_console:
  "convert_loop env ps (w, c, f) = (w', c', f') \<Longrightarrow>
   \<exists>ms. console w' = console w @ ms \<and> list_all2 about ps ms
      \<and> c' = c + length (filter (\<lambda>m. \<not> is_failure m) ms)
      \<and> f' = f + length (filter is_failure ms)"
proof (induction ps arbitrary: w c f)
  case Nil
  then show ?case by simp
next
  case (Cons p ps)
  obtain r w1 where s: "convert_file_to_modern_dsl env p w = (r, w1)"
    and l: "convert_loop env (p # ps) (w, c, f) =
         convert_loop env ps (w1, if r then c + 1 else c, if r then f else f + 1)"
    by (rule loop_step)
  from convert_console[OF s] obtain m where
    m: "console w1 = console w @ [m]" "about p m" "r \<longleftrightarrow> \<not> is_failure m" by blast
  from Cons.prems l obtain ms where
    ms: "console w' = console w1 @ ms" "list_all2 about ps ms"
      "c' = (if r then c + 1 else c) + length (filter (\<lambda>m. \<not> is_failure m) ms)"
      "f' = (if r then f else f + 1) + length (filter is_failure ms)"
    using Cons.IH[of w1 "if r then c + 1 else c" "if r then f else f + 1"] by auto
  show ?case
    by (rule exI[of _ "m # ms"]) (use m ms in auto)
qed

lemma loop_ops:
  "convert_loop env ps (w, c, f) = (w', c', f') \<Longrightarrow>
   \<exists>os. ops w' = ops w @ os \<and> (\<forall>op\<in>set os. \<exists>p\<in>set ps. touches p op)"
proof (induction ps arbitrary: w c f)
  case Nil
  then show ?case by simp
next
  case (Cons p ps)
  obtain r w1 where s: "convert_file_to_modern_dsl env p w = (r, w1)"
    and l: "convert_loop env (p # ps) (w, c, f) =
         convert_loop env ps (w1, if r then c + 1 else c, if r then f else f + 1)"
    by (rule loop_step)
  from convert_ops[OF s] obtain seg where
    seg: "ops w1 = ops w @ seg" "\<forall>op\<in>set seg. touches p op"
    unfolding touches_def by (metis append_Nil2 empty_iff empty_set set_ConsD)
  from Cons.prems l obtain os where
    os: "ops w' = ops w1 @ os" "\<forall>op\<in>set os. \<exists>p\<in>set ps. touches p op"
    using Cons.IH[of w1 "if r then c + 1 else c" "if r then f else f + 1"] by auto
  show ?case
    by (rule exI[of _ "seg @ os"]) (use seg os in auto)
qed

lemma convert_ops_touches:
  assumes "convert_file_to_modern_dsl env p w = (r, w')"
  shows "\<exists>seg. ops w' = ops w @ seg \<and> (\<forall>op\<in>set seg. touches p op)"
  using convert_ops[OF assms] unfolding touches_def
  by (elim disjE) (rule exI[of _ "[]"], simp, rule exI[of _ "[OpCopy p (p @ ''.backup'')]"], simp,
      rule exI[of _ "[OpCopy p (p @ ''.backup''), OpWrite p]"], simp)


lemma loop_skipped:
  assumes "convert_loop env ps (w, c, f) = (w', c', f')" "distinct ps"
    "\<forall>q\<in>set ps. suffix ''.lua'' q"
    "AlreadyModern p \<in> set (console w')" "AlreadyModern p \<notin> set (console w)"
  shows "p \<in> set ps \<and> map_of (files w') (p @ ''.backup'') = map_of (files w) (p @ ''.backup'')
       \<and> map_of (files w') p = map_of (files w) p
       \<and> (\<exists>os. ops w' = ops w @ os \<and> OpWrite p \<notin> set os
             \<and> (\<forall>src. OpCopy src (p @ ''.backup'') \<notin> set os))"
  using assms
proof (induction ps arbitrary: w c f)
  case Nil
  then show ?case by simp
next
  case (Cons p0 ps)
  obtain r w1 where s: "convert_file_to_modern_dsl env p0 w = (r, w1)"
    and l: "convert_loop env (p0 # ps) (w, c, f) =
         convert_loop env ps (w1, if r then c + 1 else c, if r then f else f + 1)"
    by (rule loop_step)
  have rest: "convert_loop env ps (w1, if r then c + 1 else c, if r then f else f + 1) = (w', c', f')"
    using Cons.prems(1) l by simp
  from convert_console[OF s] obtain m where
    m: "console w1 = console w @ [m]" "about p0 m" by blast
  from loop_ops[OF rest] obtain os where
    os: "ops w' = ops w1 @ os" "\<forall>op\<in>set os. \<exists>q\<in>set ps. touches q op" by blast
  show ?case
  proof (cases "AlreadyModern p \<in> set (console w1)")
    case True
    with m Cons.prems(5) have eq: "p = p0" and mc: "console w1 = console w @ [AlreadyModern p0]"
      by (auto simp: about_def)
    from convert_skipped[OF s mc] have b: "files w1 = files w" "ops w1 = ops w" by auto
    have "map_of (files w') (p0 @ ''.backup'') = map_of (files w1) (p0 @ ''.backup'')"
      using Cons.prems(2,3) by (intro loop_frame[OF rest]) auto
    moreover have "map_of (files w') p0 = map_of (files w1) p0"
      using Cons.prems(2,3) by (intro loop_frame[OF rest]) auto
    moreover have "OpWrite p0 \<notin> set os" "\<forall>src. OpCopy src (p0 @ ''.backup'') \<notin> set os"
      using os(2) Cons.prems(2) by (auto simp: touches_def)
    ultimately show ?thesis
      using b os(1) eq by (intro conjI exI[of _ os]) auto
  next
    case False
    from Cons.IH[OF rest _ _ Cons.prems(4) False] Cons.prems(2,3) obtain os' where
      ih: "p \<in> set ps" "map_of (files w') (p @ ''.backup'') = map_of (files w1) (p @ ''.backup'')"
        "map_of (files w') p = map_of (files w1) p"
        "ops w' = ops w1 @ os'" "OpWrite p \<notin> set os'" "\<forall>src. OpCopy src (p @ ''.backup'') \<notin> set os'"
      by auto
    have ne: "p \<noteq> p0" using ih(1) Cons.prems(2) by auto
    have lua: "suffix ''.lua'' p" using ih(1) Cons.prems(3) by auto
    have lua0: "suffix ''.lua'' p0" using Cons.prems(3) by auto
    have ne2: "p \<noteq> p0 @ ''.backup''" using lua by auto
    have ne3: "p @ ''.backup'' \<noteq> p0" using lua0 by auto
    have f1: "map_of (files w1) p = map_of (files w) p"
      by (rule convert_frame[OF s ne ne2])
    have f2: "map_of (files w1) (p @ ''.backup'') = map_of (files w) (p @ ''.backup'')"
      using ne ne3 by (intro convert_frame[OF s]) auto
    from convert_ops_touches[OF s] obtain seg where
      seg0: "ops w1 = ops w @ seg" "\<forall>op\<in>set seg. touches p0 op" by blast
    have seg: "ops w1 = ops w @ seg" "OpWrite p \<notin> set seg" "\<forall>src. OpCopy src (p @ ''.backup'') \<notin> set seg"
      using seg0 ne by (auto simp: touches_def)
    have "ops w' = ops w @ (seg @ os')" using ih(4) seg(1) by simp
    moreover have "OpWrite p \<notin> set (seg @ os')" "\<forall>src. OpCopy src (p @ ''.backup'') \<notin> set (seg @ os')"
      using seg ih by auto
    ultimately show ?thesis using ih(1,2,3) f1 f2 by (intro conjI exI[of _ "seg @ os'"]) auto
  qed
qed

lemma scan_effect:
  "scan env ps acc w = (cands, w') \<Longrightarrow>
   files w' = files w \<and> ops w' = ops w \<and> cands = acc @ filter (selected env (files w)) ps
   \<and> (\<exists>ms. console w' = console w @ ms \<and> (\<forall>m\<in>set ms. is_warning m))"
proof (induction ps arbitrary: acc w)
  case Nil
  then show ?case by simp
next
  case (Cons p ps)
  show ?case
  proof (cases "read_text (scan_read_fails env) w p")
    case (Inl e)
    with Cons.prems have r: "scan env ps acc (print (ErrorReading p) w) = (cands, w')" by simp
    from Inl have ns: "\<not> selected env (files w) p"
      by (auto simp: read_text_def selected_def split: if_splits option.splits)
    from Cons.IH[OF r] obtain ms where
      "files w' = files w" "ops w' = ops w" "cands = acc @ filter (selected env (files w)) ps"
      "console w' = console w @ ErrorReading p # ms" "\<forall>m\<in>set ms. is_warning m"
      by (auto simp: print_def)
    then show ?thesis using ns
      by (intro conjI exI[of _ "ErrorReading p # ms"]) auto
  next
    case (Inr t)
    then have sel: "selected env (files w) p = is_legacy t"
      by (auto simp: read_text_def selected_def split: if_splits option.splits)
    from Cons.prems Inr have
      r: "scan env ps (if is_legacy t then acc @ [p] else acc) w = (cands, w')"
      by (simp split: if_splits)
    from Cons.IH[OF r] sel show ?thesis by auto
  qed
qed

lemma detect_effect:
  assumes "detect env fs = (cands, w1)"
  shows "files w1 = fs" "ops w1 = []" "cands = filter (selected env fs) (rglob_lua fs)"
    "\<exists>ms. console w1 = Starting # ms \<and> (\<forall>m\<in>set ms. is_warning m)"
  using scan_effect[OF assms[unfolded detect_def]] by (auto simp: start_def print_def)

lemma detect_candidates:
  assumes "detect env fs = (cands, w1)"
  shows "\<forall>p\<in>set cands. prefix ''examples/'' p \<and> suffix ''.lua'' p \<and> selected env fs p"
    "distinct (map fst fs) \<Longrightarrow> distinct cands"
  using detect_effect(3)[OF assms] by (auto simp: rglob_lua_def)

lemma main_cases:
  obtains (empty) w1 ms where "detect env fs = ([], w1)" "files w1 = fs" "ops w1 = []"
      "console w1 = Starting # ms" "\<forall>m\<in>set ms. is_warning m"
      "main env fs = print NoFilesNeedConversion (print (Found 0) w1)"
  | (loop) cands w1 ms w3 c f where "detect env fs = (cands, w1)" "cands \<noteq> []"
      "files w1 = fs" "ops w1 = []" "console w1 = Starting # ms" "\<forall>m\<in>set ms. is_warning m"
      "convert_loop env cands (print (Found (length cands)) w1, 0, 0) = (w3, c, f)"
      "main env fs = print (Summary c f (length cands)) w3"
proof -
  obtain cands w1 where d: "detect env fs = (cands, w1)" by (cases "detect env fs")
  from detect_effect[OF d] obtain ms where
    e: "files w1 = fs" "ops w1 = []" "console w1 = Starting # ms" "\<forall>m\<in>set ms. is_warning m"
    by blast
  show thesis
  proof (cases "cands = []")
    case True
    with d e show ?thesis by (intro empty[of w1 ms]) (auto simp: main_def)
  next
    case False
    obtain w3 c f where
      l: "convert_loop env cands (print (Found (length cands)) w1, 0, 0) = (w3, c, f)"
      by (cases "convert_loop env cands (print (Found (length cands)) w1, 0, 0)")
    with d e False show ?thesis by (intro loop[of cands w1 ms w3 c f]) (auto simp: main_def)
  qed
qed

lemma in_print [simp]: "files (print m w) = files w" "ops (print m w) = ops w"
  "console (print m w) = console w @ [m]"
  by (simp_all add: print_def)

lemmas run_defs = main_def detect_def start_def rglob_lua_def conv_defs is_legacy_def
  already_modern_def no_faults_def suffix_to_prefix

lemma candidates_eq: "detect env fs = (cands, w1) \<Longrightarrow> candidates env fs = cands"
  by (simp add: candidates_def)


lemma warnings_count:
  "\<forall>m\<in>set ms. is_warning m \<Longrightarrow>
   filter is_success ms = [] \<and> filter is_failure ms = [] \<and> (\<forall>m\<in>set ms. \<not> is_summary m)"
proof (induction ms)
  case Nil
  then show ?case by simp
next
  case (Cons m ms)
  then show ?case by (cases m) auto
qed

lemma convert_skip:
  assumes "map_of (files w) p = Some b" "\<not> conv_read_fails env p" "already_modern b"
  shows "convert_file_to_modern_dsl env p w = (True, print (AlreadyModern p) w)"
  using assms by (simp add: convert_file_to_modern_dsl_def convert_body_def read_text_def)

lemma loop_reaches_skip:
  assumes "convert_loop env ps (w, c, f) = (w', c', f')" "p \<in> set ps" "distinct ps"
    "\<forall>q\<in>set ps. suffix ''.lua'' q" "map_of (files w) p = Some b"
    "\<not> conv_read_fails env p" "already_modern b"
  shows "AlreadyModern p \<in> set (console w')"
  using assms
proof (induction ps arbitrary: w c f)
  case Nil
  then show ?case by simp
next
  case (Cons p0 ps)
  obtain r w1 where s: "convert_file_to_modern_dsl env p0 w = (r, w1)"
    and l: "convert_loop env (p0 # ps) (w, c, f) =
         convert_loop env ps (w1, if r then c + 1 else c, if r then f else f + 1)"
    by (rule loop_step)
  have rest: "convert_loop env ps (w1, if r then c + 1 else c, if r then f else f + 1) = (w', c', f')"
    using Cons.prems(1) l by simp
  show ?case
  proof (cases "p = p0")
    case True
    from convert_skip[OF Cons.prems(5,6,7)] s True have "AlreadyModern p \<in> set (console w1)"
      by auto
    moreover from loop_console[OF rest] obtain ms where "console w' = console w1 @ ms" by blast
    ultimately show ?thesis by simp
  next
    case False
    then have in_rest: "p \<in> set ps" using Cons.prems(2) by simp
    then have "suffix ''.lua'' p" using Cons.prems(4) by simp
    then have "p \<noteq> p0 @ ''.backup''" by auto
    from convert_frame[OF s False this] Cons.prems(5) have "map_of (files w1) p = Some b" by simp
    from Cons.IH[OF rest in_rest _ _ this Cons.prems(6,7)] Cons.prems(3,4) show ?thesis by simp
  qed
qed

lemma template_differs: "create_modern_dsl_template p c \<noteq> ''TaskDefinition''"
proof
  assume "create_modern_dsl_template p c = ''TaskDefinition''"
  with template_has_task_call[of p c] show False by simp
qed

lemma header_has_classification:
  "str_in (''-- Category: '' @ c @ '', Complexity: '' @ x @ ''\<newline>'') (template_header d c x)"
proof -
  have "template_header d c x =
      (''-- MODERN DSL ONLY - '' @ d @ ''\<newline>-- Converted from legacy TaskDefinition format\<newline>'')
      @ (''-- Category: '' @ c @ '', Complexity: '' @ x @ ''\<newline>'')
      @ ''\<newline>''"
    by (simp add: template_header_def)
  then show ?thesis unfolding str_in_iff by blast
qed

lemma strip_token_own_all:
  "\<forall>tok\<in>set space_tokens. strip_token space_tokens (tok @ s) = Some s"
  by (simp add: space_tokens_def)

lemma strip_token_own: "tok \<in> set space_tokens \<Longrightarrow> strip_token space_tokens (tok @ s) = Some s"
  using strip_token_own_all by blast

lemma strip_token_Some: "strip_token ts s = Some r \<Longrightarrow> \<exists>t\<in>set ts. s = t @ r"
  by (induction ts) (auto split: if_splits simp: prefix_def)

lemma strip_token_equals [simp]: "strip_token space_tokens (CHR ''='' # r) = None"
  by (simp add: space_tokens_def)

lemma strip_token_quote [simp]: "is_quote q \<Longrightarrow> strip_token space_tokens (q # r) = None"
  unfolding is_quote_def by (erule disjE) (simp_all add: space_tokens_def)

lemma white_Nil [simp]: "white []"
  unfolding white_def by (rule exI[of _ "[]"]) simp

lemma white_token: "tok \<in> set space_tokens \<Longrightarrow> white ws \<Longrightarrow> white (tok @ ws)"
  unfolding white_def
proof -
  assume t: "tok \<in> set space_tokens" and "\<exists>toks. set toks \<subseteq> set space_tokens \<and> ws = concat toks"
  then obtain toks where "set toks \<subseteq> set space_tokens" "ws = concat toks" by blast
  with t show "\<exists>toks. set toks \<subseteq> set space_tokens \<and> tok @ ws = concat toks"
    by (intro exI[of _ "tok # toks"]) simp
qed

lemma skip_white:
  assumes "white ws" "strip_token space_tokens r = None"
  shows "skip_spaces (ws @ r) = r"
proof -
  from assms(1) obtain toks where t: "set toks \<subseteq> set space_tokens" "ws = concat toks"
    unfolding white_def by blast
  from t(1) have "skip_spaces (concat toks @ r) = r"
  proof (induction toks)
    case Nil
    then show ?case using assms(2) by (simp add: skip_spaces.simps)
  next
    case (Cons tok toks)
    then have "strip_token space_tokens (tok @ concat toks @ r) = Some (concat toks @ r)"
      by (intro strip_token_own) simp
    then have "skip_spaces (tok @ concat toks @ r) = skip_spaces (concat toks @ r)"
      by (subst skip_spaces.simps) simp
    with Cons show ?case by simp
  qed
  then show ?thesis by (simp add: t(2))
qed

lemma skip_spaces_decomp:
  "\<exists>ws. white ws \<and> s = ws @ skip_spaces s"
proof (induction s rule: skip_spaces.induct)
  case (1 s)
  show ?case
  proof (cases "strip_token space_tokens s")
    case None
    then have "skip_spaces s = s" by (subst skip_spaces.simps) simp
    then show ?thesis by (intro exI[of _ "[]"]) simp
  next
    case (Some r)
    then have eq: "skip_spaces s = skip_spaces r" by (subst skip_spaces.simps) simp
    from strip_token_Some[OF Some] obtain tok where tok: "tok \<in> set space_tokens" "s = tok @ r"
      by blast
    from 1[OF Some] obtain ws where ws: "white ws" "r = ws @ skip_spaces r" by blast
    have "s = (tok @ ws) @ skip_spaces s" using tok(2) ws(2) eq by simp
    with white_token[OF tok(1) ws(1)] show ?thesis by blast
  qed
qed

lemma match_description_intro:
  assumes "white ws1" "white ws2" "is_quote q1" "is_quote q2" "x \<noteq> []" "\<forall>c\<in>set x. \<not> is_quote c"
  shows "match_description (''description'' @ ws1 @ ''='' @ ws2 @ q1 # x @ q2 # post) = Some x"
proof -
  have 1: "skip_spaces (ws1 @ CHR ''='' # ws2 @ q1 # x @ q2 # post) = CHR ''='' # ws2 @ q1 # x @ q2 # post"
    by (rule skip_white[OF assms(1)]) simp
  have 2: "skip_spaces (ws2 @ q1 # x @ q2 # post) = q1 # x @ q2 # post"
    by (rule skip_white[OF assms(2)]) (simp add: assms(3))
  have 3: "takeWhile (\<lambda>c. \<not> is_quote c) (x @ q2 # post) = x"
    using assms(4,6) by (simp add: takeWhile_append2)
  have 4: "dropWhile (\<lambda>c. \<not> is_quote c) (x @ q2 # post) = q2 # post"
    using assms(4,6) by (simp add: dropWhile_append2)
  show ?thesis
    by (simp add: match_description_def 1 2 3 4 assms(3,4,5))
qed

lemma match_description_elim:
  assumes "match_description s = Some x"
  shows "\<exists>ws1 ws2 q1 q2 post.
        s = ''description'' @ ws1 @ ''='' @ ws2 @ q1 # x @ q2 # post
      \<and> white ws1 \<and> white ws2 \<and> is_quote q1 \<and> is_quote q2
      \<and> x \<noteq> [] \<and> (\<forall>c\<in>set x. \<not> is_quote c)"
proof -
  from assms have p: "prefix ''description'' s"
    by (auto simp: match_description_def split: if_splits)
  then obtain r where r: "s = ''description'' @ r" by (auto simp: prefix_def)
  then have d: "drop 11 s = r" by simp
  from assms p d obtain s2 where s2: "skip_spaces r = CHR ''='' # s2"
    by (auto simp: match_description_def split: if_splits list.splits)
  from assms p d s2 obtain q1 s4 where q: "skip_spaces s2 = q1 # s4" "is_quote q1"
    by (auto simp: match_description_def split: if_splits list.splits)
  from assms p d s2 q have x: "x = takeWhile (\<lambda>c. \<not> is_quote c) s4" "x \<noteq> []"
    "dropWhile (\<lambda>c. \<not> is_quote c) s4 \<noteq> []"
    by (auto simp: match_description_def Let_def split: if_splits)
  from x(3) obtain q2 post where dw: "dropWhile (\<lambda>c. \<not> is_quote c) s4 = q2 # post"
    by (cases "dropWhile (\<lambda>c. \<not> is_quote c) s4") auto
  then have q2: "is_quote q2" using hd_dropWhile[of "\<lambda>c. \<not> is_quote c" s4] by auto
  have s4: "s4 = x @ q2 # post"
    using takeWhile_dropWhile_id[of "\<lambda>c. \<not> is_quote c" s4] x(1) dw by simp
  have nq: "\<forall>c\<in>set x. \<not> is_quote c" unfolding x(1) by (auto dest: set_takeWhileD)
  from skip_spaces_decomp[of r] obtain ws1 where ws1: "white ws1" "r = ws1 @ skip_spaces r" by blast
  from skip_spaces_decomp[of s2] obtain ws2 where ws2: "white ws2" "s2 = ws2 @ skip_spaces s2" by blast
  have "s = ''description'' @ ws1 @ ''='' @ ws2 @ q1 # x @ q2 # post"
    using r ws1(2) s2 ws2(2) q(1) s4 by simp
  with ws1(1) ws2(1) q(2) q2 x(2) nq show ?thesis by blast
qed

lemma description_at_iff:
  "description_at content i x \<longleftrightarrow> i \<le> length content \<and> match_description (drop i content) = Some x"
proof
  assume "description_at content i x"
  then obtain pre ws1 ws2 q1 q2 post where
    h: "content = pre @ ''description'' @ ws1 @ ''='' @ ws2 @ q1 # x @ q2 # post"
      "length pre = i" "white ws1" "white ws2" "is_quote q1" "is_quote q2"
      "x \<noteq> []" "\<forall>c\<in>set x. \<not> is_quote c"
    unfolding description_at_def by blast
  have "drop i content = ''description'' @ ws1 @ ''='' @ ws2 @ q1 # x @ q2 # post"
    unfolding h(1) using h(2) by simp
  with match_description_intro[OF h(3-8)] h(1,2) show
    "i \<le> length content \<and> match_description (drop i content) = Some x" by simp
next
  assume a: "i \<le> length content \<and> match_description (drop i content) = Some x"
  from match_description_elim[of "drop i content" x] a obtain ws1 ws2 q1 q2 post where
    h: "drop i content = ''description'' @ ws1 @ ''='' @ ws2 @ q1 # x @ q2 # post"
      "white ws1" "white ws2" "is_quote q1" "is_quote q2"
      "x \<noteq> []" "\<forall>c\<in>set x. \<not> is_quote c"
    by blast
  have "content = take i content @ ''description'' @ ws1 @ ''='' @ ws2 @ q1 # x @ q2 # post"
    using h(1) append_take_drop_id[of i content] by simp
  moreover have "length (take i content) = i" using a by simp
  ultimately show "description_at content i x"
    unfolding description_at_def using h(2-7) by blast
qed

lemma match_description_Nil [simp]: "match_description [] = None"
  by (simp add: match_description_def)

lemma search_none: "search_description s = None \<longleftrightarrow> (\<forall>i. match_description (drop i s) = None)"
proof (induction s)
  case Nil
  then show ?case by simp
next
  case (Cons c cs)
  have "(\<forall>i. match_description (drop i (c # cs)) = None)
      \<longleftrightarrow> match_description (c # cs) = None \<and> (\<forall>i. match_description (drop i cs) = None)"
    (is "?l \<longleftrightarrow> ?r")
  proof
    assume l: ?l
    from l[rule_format, of 0] l show ?r by (auto dest: spec[of _ "Suc _"])
  next
    assume ?r
    then show ?l by (auto simp: drop_Cons split: nat.split)
  qed
  with Cons show ?case by (auto split: option.splits)
qed

lemma search_first:
  "match_description (drop i s) = Some x \<Longrightarrow> (\<forall>j<i. match_description (drop j s) = None) \<Longrightarrow>
   search_description s = Some x"
proof (induction s arbitrary: i)
  case Nil
  then show ?case by simp
next
  case (Cons c cs)
  show ?case
  proof (cases i)
    case 0
    with Cons.prems show ?thesis by simp
  next
    case (Suc k)
    with Cons.prems have "match_description (c # cs) = None" by (auto dest: spec[of _ 0])
    moreover have "search_description cs = Some x"
    proof (rule Cons.IH[of k])
      show "match_description (drop k cs) = Some x" using Cons.prems(1) Suc by simp
      show "\<forall>j<k. match_description (drop j cs) = None"
      proof (intro allI impI)
        fix j assume "j < k"
        then have "Suc j < i" using Suc by simp
        with Cons.prems(2) have "match_description (drop (Suc j) (c # cs)) = None" by blast
        then show "match_description (drop j cs) = None" by simp
      qed
    qed
    ultimately show ?thesis by simp
  qed
qed

lemma task_has_description:
  "str_in (''    :description('' @ [CHR 0x22] @ d @ [CHR 0x22] @ '')'') (template_task d f)"
proof -
  have "template_task d f =
      (''-- Main task using Modern DSL\<newline>local main_task = task('' @ [CHR 0x22] @ f @ ''_task''
         @ [CHR 0x22] @ '')\<newline>'')
      @ (''    :description('' @ [CHR 0x22] @ d @ [CHR 0x22] @ '')'')
      @ ''\<newline>''"
    by (simp add: template_task_def)
  then show ?thesis unfolding str_in_iff by blast
qed

lemmas match_defs = description_of_def match_description_def skip_spaces.simps space_tokens_def
  is_quote_def

section \<open>The claims\<close>

text \<open>
  Claim C1 (idempotence of the whole run) fails on the code. The rendered template
  itself contains \<open>TaskDefinition\<close>, so a converted file is detected again and is
  not already modern: with one legacy file and no failing call, the second run prints
  \<open>Converted\<close> for it once more and overwrites the backup of the first run, which
  held the original bytes, with the template.
\<close>

theorem second_run_converts_again:
  "map_of (files (main no_faults [(''examples/a.lua'', ''TaskDefinition'')])) ''examples/a.lua.backup''
     = Some ''TaskDefinition''
   \<and> console (main no_faults (files (main no_faults [(''examples/a.lua'', ''TaskDefinition'')])))
     = [Starting, Found 1, Converted ''examples/a.lua'', Summary 1 0 1]
   \<and> map_of (files (main no_faults (files (main no_faults [(''examples/a.lua'', ''TaskDefinition'')]))))
        ''examples/a.lua.backup''
     = Some (create_modern_dsl_template ''examples/a.lua'' ''TaskDefinition'')
   \<and> create_modern_dsl_template ''examples/a.lua'' ''TaskDefinition'' \<noteq> ''TaskDefinition''
   \<and> \<not> already_modern (create_modern_dsl_template ''examples/a.lua'' ''TaskDefinition'')"
proof -
  have first: "files (main no_faults [(''examples/a.lua'', ''TaskDefinition'')])
     = [(''examples/a.lua'', create_modern_dsl_template ''examples/a.lua'' ''TaskDefinition''),
        (''examples/a.lua.backup'', ''TaskDefinition'')]"
    by (simp add: run_defs)
  have second: "main no_faults
       [(''examples/a.lua'', create_modern_dsl_template ''examples/a.lua'' ''TaskDefinition''),
        (''examples/a.lua.backup'', ''TaskDefinition'')]
     = \<lparr>files = [(''examples/a.lua'', create_modern_dsl_template ''examples/a.lua''
                     (universal_newlines (create_modern_dsl_template ''examples/a.lua'' ''TaskDefinition''))),
                 (''examples/a.lua.backup'', create_modern_dsl_template ''examples/a.lua'' ''TaskDefinition'')],
        console = [Starting, Found 1, Converted ''examples/a.lua'', Summary 1 0 1],
        ops = [OpCopy ''examples/a.lua'' ''examples/a.lua.backup'', OpWrite ''examples/a.lua'']\<rparr>"
    by (simp add: run_defs str_in_universal_newlines template_has_TaskDefinition)
  show ?thesis
    unfolding first second
    by (simp add: template_differs template_not_already_modern)
qed



text \<open>
  Claim C3 as stated fails: the group stops at the first quote character of either kind,
  so a double-quoted description with an apostrophe is cut short.
\<close>

theorem description_not_verbatim_counterexample:
  \<open>description_of ''examples/a.lua'' ''description = "it's"'' = ''it''\<close>
  by (simp add: match_defs)

text \<open>
  Claim C3 (description extraction), as amended. When the pattern occurs in the text at
  some offset with group \<open>x\<close>, and at no smaller offset, the description is \<open>x\<close>
  verbatim; when the pattern occurs nowhere, the description is
  \<open>Modern DSL version of\<close> followed by the stem of the file name. In both cases it
  is the string the rendered \<open>:description("...")\<close> line carries.
\<close>

theorem description_extraction:
  "(description_at content i x \<and> (\<forall>j<i. \<forall>y. \<not> description_at content j y) \<longrightarrow>
      description_of p content = x)
   \<and> ((\<forall>j y. \<not> description_at content j y) \<longrightarrow>
      description_of p content = ''Modern DSL version of '' @ path_stem p)
   \<and> str_in (''    :description('' @ [CHR 0x22] @ description_of p content @ [CHR 0x22] @ '')'')
        (create_modern_dsl_template p content)"
proof (intro conjI impI)
  assume a: "description_at content i x \<and> (\<forall>j<i. \<forall>y. \<not> description_at content j y)"
  then have i: "i \<le> length content" "match_description (drop i content) = Some x"
    by (simp_all add: description_at_iff)
  have "\<forall>j<i. match_description (drop j content) = None"
  proof (intro allI impI)
    fix j assume "j < i"
    with a i(1) have "\<forall>y. match_description (drop j content) \<noteq> Some y"
      by (simp add: description_at_iff)
    then show "match_description (drop j content) = None" by (cases "match_description (drop j content)") auto
  qed
  from search_first[OF i(2) this] show "description_of p content = x"
    by (simp add: description_of_def)
next
  assume a: "\<forall>j y. \<not> description_at content j y"
  have "match_description (drop j content) = None" for j
  proof (cases "j \<le> length content")
    case True
    with a have "\<forall>y. match_description (drop j content) \<noteq> Some y"
      by (simp add: description_at_iff)
    then show ?thesis by (cases "match_description (drop j content)") auto
  next
    case False
    then show ?thesis by simp
  qed
  then have "search_description content = None" by (simp add: search_none)
  then show "description_of p content = ''Modern DSL version of '' @ path_stem p"
    by (simp add: description_of_def)
next
  have "create_modern_dsl_template p content =
        render (description_of p content) (path_stem p) (fst (classify p)) (snd (classify p))
          (path_name p)"
    by (simp add: create_modern_dsl_template_def case_prod_beta)
  then show "str_in (''    :description('' @ [CHR 0x22] @ description_of p content @ [CHR 0x22] @ '')'')
        (create_modern_dsl_template p content)"
    unfolding render_def
    by (simp only: str_in_appendI2[OF str_in_appendI1[OF task_has_description]])
qed

theorem description_extraction_witness:
  "description_at ''{description = 'Say hi'}'' 1 ''Say hi''
   \<and> description_of ''examples/hello.lua'' ''{description = 'Say hi'}'' = ''Say hi''
   \<and> description_of ''examples/hello.lua'' ''TaskDefinition{}'' = ''Modern DSL version of hello''"
proof -
  have at: "description_at ''{description = 'Say hi'}'' 1 ''Say hi''"
    by (simp add: description_at_iff match_defs)
  have first: "\<forall>j<1. \<forall>y. \<not> description_at ''{description = 'Say hi'}'' j y"
    by (simp add: description_at_iff match_defs)
  have sn: "search_description ''TaskDefinition{}'' = None"
    by (simp add: match_defs)
  have none: "\<forall>j y. \<not> description_at ''TaskDefinition{}'' j y"
  proof (intro allI notI)
    fix j y
    assume "description_at ''TaskDefinition{}'' j y"
    then have "match_description (drop j ''TaskDefinition{}'') = Some y"
      by (simp only: description_at_iff)
    moreover have "match_description (drop j ''TaskDefinition{}'') = None"
      by (rule search_none[THEN iffD1, OF sn, rule_format])
    ultimately show False by (simp only: option.distinct)
  qed
  have stem: "path_stem ''examples/hello.lua'' = ''hello''"
    by (simp add: path_stem_def path_name_def)
  from description_extraction[of "''{description = 'Say hi'}''" 1 "''Say hi''" "''examples/hello.lua''"]
    description_extraction[of "''TaskDefinition{}''" 0 "[]" "''examples/hello.lua''"]
    at first none stem
  show ?thesis by simp
qed

text \<open>
  Claim C4 (classification). The tests on the path are tried in the order
  \<open>beginner\<close>, \<open>intermediate\<close>, \<open>advanced\<close>, and the first that holds decides
  both fields; a path with none of the markers is \<open>general\<close>/\<open>basic\<close>. The pair is
  always one of these four, and it is the pair the rendered header carries.
\<close>

theorem classification:
  "(str_in ''beginner'' p \<longrightarrow> classify p = (''beginner'', ''simple''))
   \<and> (\<not> str_in ''beginner'' p \<and> str_in ''intermediate'' p \<longrightarrow>
        classify p = (''intermediate'', ''moderate''))
   \<and> (\<not> str_in ''beginner'' p \<and> \<not> str_in ''intermediate'' p \<and> str_in ''advanced'' p \<longrightarrow>
        classify p = (''advanced'', ''complex''))
   \<and> (\<not> str_in ''beginner'' p \<and> \<not> str_in ''intermediate'' p \<and> \<not> str_in ''advanced'' p \<longrightarrow>
        classify p = (''general'', ''basic''))
   \<and> classify p \<in> {(''beginner'', ''simple''), (''intermediate'', ''moderate''),
                     (''advanced'', ''complex''), (''general'', ''basic'')}
   \<and> str_in (''-- Category: '' @ fst (classify p) @ '', Complexity: '' @ snd (classify p) @ ''\<newline>'')
        (create_modern_dsl_template p content)"
proof -
  have "str_in (''-- Category: '' @ fst (classify p) @ '', Complexity: '' @ snd (classify p) @ ''\<newline>'')
        (create_modern_dsl_template p content)"
  proof -
    have "create_modern_dsl_template p content =
        render (description_of p content) (path_stem p) (fst (classify p)) (snd (classify p))
          (path_name p)"
      by (simp add: create_modern_dsl_template_def case_prod_beta)
    then show ?thesis
      unfolding render_def by (simp only: str_in_appendI1[OF header_has_classification])
  qed
  moreover have "classify p \<in> {(''beginner'', ''simple''), (''intermediate'', ''moderate''),
                     (''advanced'', ''complex''), (''general'', ''basic'')}"
    by (simp add: classify_def)
  ultimately show ?thesis by (simp add: classify_def)
qed

theorem classification_witness:
  "classify ''examples/beginner/advanced_intermediate.lua'' = (''beginner'', ''simple'')
   \<and> classify ''examples/intermediate/advanced.lua'' = (''intermediate'', ''moderate'')
   \<and> classify ''examples/advanced/x.lua'' = (''advanced'', ''complex'')
   \<and> classify ''examples/x.lua'' = (''general'', ''basic'')"
proof -
  have 1: "str_in ''beginner'' ''examples/beginner/advanced_intermediate.lua''" by simp
  have 2: "\<not> str_in ''beginner'' ''examples/intermediate/advanced.lua''
     \<and> str_in ''intermediate'' ''examples/intermediate/advanced.lua''" by simp
  have 3: "\<not> str_in ''beginner'' ''examples/advanced/x.lua''
     \<and> \<not> str_in ''intermediate'' ''examples/advanced/x.lua''
     \<and> str_in ''advanced'' ''examples/advanced/x.lua''" by simp
  have 4: "\<not> str_in ''beginner'' ''examples/x.lua'' \<and> \<not> str_in ''intermediate'' ''examples/x.lua''
     \<and> \<not> str_in ''advanced'' ''examples/x.lua''" by simp
  have a: "classify ''examples/beginner/advanced_intermediate.lua'' = (''beginner'', ''simple'')"
    by (rule classification[of "''examples/beginner/advanced_intermediate.lua''" "[]",
          THEN conjunct1, THEN mp, OF 1])
  have b: "classify ''examples/intermediate/advanced.lua'' = (''intermediate'', ''moderate'')"
    by (rule classification[of "''examples/intermediate/advanced.lua''" "[]",
          THEN conjunct2, THEN conjunct1, THEN mp, OF 2])
  have c: "classify ''examples/advanced/x.lua'' = (''advanced'', ''complex'')"
    by (rule classification[of "''examples/advanced/x.lua''" "[]",
          THEN conjunct2, THEN conjunct2, THEN conjunct1, THEN mp, OF 3])
  have d: "classify ''examples/x.lua'' = (''general'', ''basic'')"
    by (rule classification[of "''examples/x.lua''" "[]",
          THEN conjunct2, THEN conjunct2, THEN conjunct2, THEN conjunct1, THEN mp, OF 4])
  from a b c d show ?thesis by (intro conjI)
qed








text \<open>
  Claim C8 as stated fails: with no qualifying file the run prints no summary of
  converted and failed counts.
\<close>

theorem empty_run_counterexample:
  "console (main no_faults [(''examples/a.lua'', ''print(1)'')])
     = [Starting, Found 0, NoFilesNeedConversion]"
  by (simp add: run_defs)

text \<open>
  Claim C8 (empty run), as amended. When detection finds no candidate, the run leaves
  every file as it was and makes no copy and no write; it prints, after the warnings of
  the scan, \<open>Found 0\<close> and \<open>NoFilesNeedConversion\<close>, and it prints no summary.
\<close>

theorem empty_run:
  assumes "candidates env fs = []"
  shows "files (main env fs) = fs \<and> ops (main env fs) = []
       \<and> (\<exists>warnings. console (main env fs) = Starting # warnings @ [Found 0, NoFilesNeedConversion]
             \<and> (\<forall>m\<in>set warnings. is_warning m))
       \<and> filter is_summary (console (main env fs)) = []"
proof (cases env fs rule: main_cases)
  case (empty w1 ms)
  then show ?thesis using warnings_count[OF empty(5)] by (simp add: filter_empty_conv)
next
  case (loop cands w1 ms w3 c f)
  then show ?thesis using assms by (simp add: candidates_eq[OF loop(1)])
qed

theorem empty_run_witness:
  "candidates no_faults [(''examples/a.lua'', ''print(1)''), (''notes.txt'', ''TaskDefinition'')] = []
   \<and> files (main no_faults [(''examples/a.lua'', ''print(1)''), (''notes.txt'', ''TaskDefinition'')])
       = [(''examples/a.lua'', ''print(1)''), (''notes.txt'', ''TaskDefinition'')]
   \<and> ops (main no_faults [(''examples/a.lua'', ''print(1)''), (''notes.txt'', ''TaskDefinition'')]) = []"
proof -
  have c: "candidates no_faults [(''examples/a.lua'', ''print(1)''), (''notes.txt'', ''TaskDefinition'')] = []"
    by (simp add: candidates_def run_defs)
  from empty_run[OF c] c show ?thesis by simp
qed

text \<open>
  Claim C9 (marker asymmetry). A scanned file that both loops can read, whose text contains
  \<open>task_definition\<close> and \<open>task(\<close> but not \<open>TaskDefinition\<close>, is a
  candidate, yet its conversion is the skip: it returns \<open>True\<close>, the run prints
  \<open>AlreadyModern\<close> for it, the file and its backup path are as before, and no copy to
  the backup and no write to the file is made.
\<close>

theorem marker_asymmetry:
  assumes "distinct (map fst fs)" "p \<in> set (rglob_lua fs)" "map_of fs p = Some b"
    "\<not> scan_read_fails env p" "\<not> conv_read_fails env p"
    "read_text (conv_read_fails env) (start fs) p = Inr t"
    "str_in ''task_definition'' t" "str_in ''task('' t" "\<not> str_in ''TaskDefinition'' t"
  shows "p \<in> set (candidates env fs)
       \<and> convert_file_to_modern_dsl env p (start fs) = (True, print (AlreadyModern p) (start fs))
       \<and> AlreadyModern p \<in> set (console (main env fs))
       \<and> map_of (files (main env fs)) p = Some b
       \<and> map_of (files (main env fs)) (p @ ''.backup'') = map_of fs (p @ ''.backup'')
       \<and> OpWrite p \<notin> set (ops (main env fs))
       \<and> (\<forall>src. OpCopy src (p @ ''.backup'') \<notin> set (ops (main env fs)))"
proof -
  have t: "t = universal_newlines b"
    using assms(3,5,6) by (simp add: read_text_def start_def print_def)
  have legacy: "is_legacy b"
    using assms(7) unfolding t by (simp add: is_legacy_def str_in_universal_newlines)
  have modern: "already_modern b"
    using assms(8,9) unfolding t by (simp add: already_modern_def str_in_universal_newlines)
  have sel: "selected env fs p" using assms(3,4) legacy by (simp add: selected_def)
  have one: "convert_file_to_modern_dsl env p (start fs) = (True, print (AlreadyModern p) (start fs))"
    by (rule convert_skip[OF _ assms(5) modern]) (simp add: start_def print_def assms(3))
  show ?thesis
  proof (cases env fs rule: main_cases)
    case (empty w1 ms)
    from detect_effect(3)[OF empty(1)] have "filter (selected env fs) (rglob_lua fs) = []"
      by simp
    with sel assms(2) have False unfolding filter_empty_conv by blast
    then show ?thesis ..
  next
    case (loop cands w1 ms w3 c f)
    have mem: "p \<in> set cands" using detect_effect(3)[OF loop(1)] sel assms(2) by simp
    have d: "distinct cands" and lua: "\<forall>q\<in>set cands. suffix ''.lua'' q"
      using detect_candidates[OF loop(1)] assms(1) by auto
    let ?w2 = "print (Found (length cands)) w1"
    have "map_of (files ?w2) p = Some b" using loop(3) assms(3) by simp
    from loop_reaches_skip[OF loop(7) mem d lua this assms(5) modern]
    have am: "AlreadyModern p \<in> set (console w3)" .
    have fresh: "AlreadyModern p \<notin> set (console ?w2)" using loop(5,6) by auto
    from loop_skipped[OF loop(7) d lua am fresh] loop(3,4,8) am mem one assms(3)
    show ?thesis by (auto simp: candidates_eq[OF loop(1)])
  qed
qed

theorem marker_asymmetry_witness:
  "candidates no_faults [(''examples/b.lua'', ''task_definition = task(b)'')] = [''examples/b.lua'']
   \<and> console (main no_faults [(''examples/b.lua'', ''task_definition = task(b)'')])
       = [Starting, Found 1, AlreadyModern ''examples/b.lua'', Summary 1 0 1]
   \<and> map_of (files (main no_faults [(''examples/b.lua'', ''task_definition = task(b)'')]))
        ''examples/b.lua'' = Some ''task_definition = task(b)''
   \<and> map_of (files (main no_faults [(''examples/b.lua'', ''task_definition = task(b)'')]))
        ''examples/b.lua.backup'' = None"
proof -
  let ?fs = "[(''examples/b.lua'', ''task_definition = task(b)'')]"
  have h: "distinct (map fst ?fs)" "''examples/b.lua'' \<in> set (rglob_lua ?fs)"
    "map_of ?fs ''examples/b.lua'' = Some ''task_definition = task(b)''"
    "\<not> scan_read_fails no_faults ''examples/b.lua''" "\<not> conv_read_fails no_faults ''examples/b.lua''"
    "read_text (conv_read_fails no_faults) (start ?fs) ''examples/b.lua'' = Inr ''task_definition = task(b)''"
    "str_in ''task_definition'' ''task_definition = task(b)''"
    "str_in ''task('' ''task_definition = task(b)''"
    "\<not> str_in ''TaskDefinition'' ''task_definition = task(b)''"
    by (simp_all add: run_defs)
  have c: "console (main no_faults ?fs) = [Starting, Found 1, AlreadyModern ''examples/b.lua'', Summary 1 0 1]"
    by (simp add: run_defs)
  have k: "candidates no_faults ?fs = [''examples/b.lua'']"
    by (simp add: candidates_def run_defs)
  from marker_asymmetry[OF h] c k show ?thesis by simp
qed




end
